theory Spec2Isabelle
  imports Complex_Main "HOL-Library.Multiset"
begin

section \<open>Python string primitives used by the port parsers\<close>

text \<open>
  The parsers of the repository are built from three primitives of the interpreter:
  \<^verbatim>\<open>str.replace\<close>, \<^verbatim>\<open>str.split\<close> and \<^verbatim>\<open>int\<close>. They are embedded here for strings
  whose code points lie in the range 0..255, one \<^typ>\<open>char\<close> per code point.
  \<^verbatim>\<open>str.split()\<close> without argument cuts at runs of white space; in that range the
  white-space code points are 9..13, 28..32, 133 and 160. \<^verbatim>\<open>int\<close> strips fewer of them
  from the ends of its argument: 9..13, 32, 133 and 160, but not 28..31.
\<close>

definition is_space :: "char \<Rightarrow> bool" where
  "is_space c = (of_char c \<in> {9, 10, 11, 12, 13, 28, 29, 30, 31, 32, 133, 160 :: int})"

definition is_int_space :: "char \<Rightarrow> bool" where
  "is_int_space c = (of_char c \<in> {9, 10, 11, 12, 13, 32, 133, 160 :: int})"

definition is_digit :: "char \<Rightarrow> bool" where
  "is_digit c = (48 \<le> (of_char c :: int) \<and> (of_char c :: int) \<le> 57)"

definition digit_val :: "char \<Rightarrow> int" where
  "digit_val c = of_char c - 48"

text \<open>\<^verbatim>\<open>port_input.replace(",", " ")\<close>\<close>

definition replace_commas :: "string \<Rightarrow> string" where
  "replace_commas s = map (\<lambda>c. if c = CHR '','' then CHR '' '' else c) s"

text \<open>
  \<^verbatim>\<open>s.split()\<close>: the first argument is the word read so far; a word ends at a
  white-space character or at the end of the string, and empty words are not produced.
\<close>

fun split_from :: "string \<Rightarrow> string \<Rightarrow> string list" where
  "split_from cur [] = (if cur = [] then [] else [cur])"
| "split_from cur (c # cs) =
     (if is_space c then (if cur = [] then split_from [] cs else cur # split_from [] cs)
      else split_from (cur @ [c]) cs)"

definition str_split :: "string \<Rightarrow> string list" where
  "str_split s = split_from [] s"

text \<open>
  \<^verbatim>\<open>int(s)\<close> in base 10: white space around the literal is stripped, one sign is
  allowed, then come decimal digits, where a single underscore may stand between two
  digits. Anything else raises \<^verbatim>\<open>ValueError\<close>, which is \<open>None\<close> here. A literal
  with more digits than the interpreter's limit, counted without the sign and the
  underscores and with leading zeros, raises \<^verbatim>\<open>ValueError\<close> too; the limit is taken
  at its default of 4300 digits.
\<close>

definition int_max_str_digits :: int where
  "int_max_str_digits = 4300"

fun py_digits :: "int \<Rightarrow> string \<Rightarrow> int option" where
  "py_digits acc [] = Some acc"
| "py_digits acc [c] = (if is_digit c then Some (10 * acc + digit_val c) else None)"
| "py_digits acc (c # d # cs) =
     (if is_digit c then py_digits (10 * acc + digit_val c) (d # cs)
      else if c = CHR ''_'' \<and> is_digit d then py_digits (10 * acc + digit_val d) cs
      else None)"

definition py_literal :: "string \<Rightarrow> int option" where
  "py_literal s =
     (case s of [] \<Rightarrow> None
      | c # cs \<Rightarrow> if is_digit c then py_digits (digit_val c) cs else None)"

definition py_unsigned :: "string \<Rightarrow> int option" where
  "py_unsigned s =
     (if int_max_str_digits < int (length (filter is_digit s)) then None else py_literal s)"

definition strip :: "string \<Rightarrow> string" where
  "strip s = rev (dropWhile is_int_space (rev (dropWhile is_int_space s)))"

definition py_int :: "string \<Rightarrow> int option" where
  "py_int s =
     (case strip s of [] \<Rightarrow> None
      | c # cs \<Rightarrow>
          if c = CHR ''-'' then map_option uminus (py_unsigned cs)
          else if c = CHR ''+'' then py_unsigned cs
          else py_unsigned (c # cs))"

text \<open>\<^verbatim>\<open>str(n)\<close> of an integer: its decimal digits, after a minus sign when negative.\<close>

function str_digits :: "int \<Rightarrow> string" where
  "str_digits n =
     (if n < 10 then [char_of (48 + n)]
      else str_digits (n div 10) @ [char_of (48 + n mod 10)])"
  by pat_completeness auto
termination
  by (relation "measure nat") auto

declare str_digits.simps [simp del]

definition py_str :: "int \<Rightarrow> string" where
  "py_str n = (if n < 0 then CHR ''-'' # str_digits (- n) else str_digits n)"

section \<open>Port expansion\<close>

text \<open>
  Every failure of the parsers is a \<^verbatim>\<open>ValueError\<close>; the constructor tells which
  \<^verbatim>\<open>raise\<close> produced it and carries the offending token:
  \<open>InvalidLiteral\<close> is the error of \<^verbatim>\<open>int\<close> itself, the other two are the
  errors \<^verbatim>\<open>parse_ports\<close> raises with the messages \<^verbatim>\<open>Invalid range token\<close> and
  \<^verbatim>\<open>Invalid port token\<close>.
\<close>

datatype error = InvalidLiteral string | InvalidRangeToken string | InvalidPortToken string

text \<open>\<^verbatim>\<open>token.split("-", 1)\<close> for a token that contains a dash: cut at the first one.\<close>

definition split_dash :: "string \<Rightarrow> string \<times> string" where
  "split_dash token =
     (takeWhile (\<lambda>c. c \<noteq> CHR ''-'') token, tl (dropWhile (\<lambda>c. c \<noteq> CHR ''-'') token))"

text \<open>
  The body of the loop of \<^verbatim>\<open>parse_ports\<close> in \<^verbatim>\<open>Mini_Port_Scanner_Advanced.py\<close>:
  one token updates the set \<^verbatim>\<open>ports\<close> or raises.
\<close>

definition parse_token :: "string \<Rightarrow> int set \<Rightarrow> error + int set" where
  "parse_token token ports =
     (if CHR ''-'' \<in> set token then
        (case split_dash token of (s, e) \<Rightarrow>
           (case py_int s of None \<Rightarrow> Inl (InvalidRangeToken token)
            | Some start0 \<Rightarrow>
               (case py_int e of None \<Rightarrow> Inl (InvalidRangeToken token)
                | Some end0 \<Rightarrow>
                    let (start, end') = (if start0 > end0 then (end0, start0) else (start0, end0))
                    in if start < 1 \<or> end' > 65535 then Inl (InvalidRangeToken token)
                       else Inr (ports \<union> {start..end'}))))
      else
        (case py_int token of None \<Rightarrow> Inl (InvalidPortToken token)
         | Some p \<Rightarrow>
             if p < 1 \<or> p > 65535 then Inl (InvalidPortToken token)
             else Inr (insert p ports)))"

fun parse_loop :: "string list \<Rightarrow> int set \<Rightarrow> error + int set" where
  "parse_loop [] ports = Inr ports"
| "parse_loop (token # tokens) ports =
     (case parse_token token ports of
        Inl err \<Rightarrow> Inl err
      | Inr ports' \<Rightarrow> parse_loop tokens ports')"

definition parse_ports :: "string \<Rightarrow> error + int list" where
  "parse_ports port_input =
     (case parse_loop (str_split (replace_commas port_input)) {} of
        Inl err \<Rightarrow> Inl err
      | Inr ports \<Rightarrow> Inr (sorted_list_of_set ports))"

text \<open>
  \<^verbatim>\<open>parse_ports_simple\<close> in \<^verbatim>\<open>Recon_tool_Network+Port_Scanner.py\<close>: every token goes
  through \<^verbatim>\<open>int\<close> and is appended; there is no other check.
\<close>

fun parse_ports_simple_loop :: "string list \<Rightarrow> int list \<Rightarrow> error + int list" where
  "parse_ports_simple_loop [] ports = Inr ports"
| "parse_ports_simple_loop (token # tokens) ports =
     (case py_int token of
        None \<Rightarrow> Inl (InvalidLiteral token)
      | Some p \<Rightarrow> parse_ports_simple_loop tokens (ports @ [p]))"

definition parse_ports_simple :: "string \<Rightarrow> error + int list" where
  "parse_ports_simple port_input = parse_ports_simple_loop (str_split port_input) []"

text \<open>
  The tokens the specification accepts: a port is valid when it lies in 1..65535. A token
  without a dash is well formed when \<^verbatim>\<open>int\<close> accepts it and its value is a valid port;
  a token with a dash is well formed when \<^verbatim>\<open>int\<close> accepts the part before the first
  dash and the part after it and both values are valid ports. Malformed is measured by
  \<^verbatim>\<open>int\<close>, as the source does: \<^verbatim>\<open>+80\<close> and \<^verbatim>\<open>1_0\<close> are the ports 80 and 10.
\<close>

definition valid_port :: "int \<Rightarrow> bool" where
  "valid_port p = (1 \<le> p \<and> p \<le> 65535)"

definition well_formed_token :: "string \<Rightarrow> bool" where
  "well_formed_token token =
     (if CHR ''-'' \<in> set token then
        (case split_dash token of (s, e) \<Rightarrow>
           (case py_int s of None \<Rightarrow> False
            | Some a \<Rightarrow> (case py_int e of None \<Rightarrow> False | Some b \<Rightarrow> valid_port a \<and> valid_port b)))
      else (case py_int token of None \<Rightarrow> False | Some p \<Rightarrow> valid_port p))"

section \<open>The concurrent port scan\<close>

text \<open>
  \<^verbatim>\<open>scan_port\<close> and \<^verbatim>\<open>scan_ports_concurrent\<close> of \<^verbatim>\<open>Mini_Port_Scanner_Advanced.py\<close>.
  What the network does is a parameter: \<open>sock_result\<close> is what the socket calls inside the
  \<^verbatim>\<open>try\<close> block of \<^verbatim>\<open>scan_port\<close> did for one host and port within the timeout, either the
  code returned by \<^verbatim>\<open>connect_ex\<close> or the text of the exception one of them raised. The
  elapsed time is the difference of two clock readings and is passed in as a number.
\<close>

datatype sock_result = ConnectEx int | SockRaised string

type_synonym scan_result = "int \<times> bool \<times> string option \<times> real"

definition scan_port :: "sock_result \<Rightarrow> int \<Rightarrow> real \<Rightarrow> scan_result" where
  "scan_port sock port elapsed =
     (case sock of
        ConnectEx code \<Rightarrow>
          if code = 0 then (port, True, None, elapsed) else (port, False, None, elapsed)
      | SockRaised e \<Rightarrow> (port, False, Some e, elapsed))"

text \<open>
  One submitted call in the pool: the worker ran \<^verbatim>\<open>scan_port\<close>, or the future holds an
  exception of class \<^verbatim>\<open>Exception\<close> and \<^verbatim>\<open>fut.result()\<close> raises it (\<open>Broke\<close> carries
  its text). Both \<^verbatim>\<open>except Exception\<close> clauses of the source catch that class only;
  other exceptions inside a worker are outside this model.
\<close>

datatype worker = Ran sock_result real | Broke string

definition fut_result :: "int \<Rightarrow> worker \<Rightarrow> string + scan_result" where
  "fut_result p w =
     (case w of Ran sock elapsed \<Rightarrow> Inr (scan_port sock p elapsed) | Broke exc \<Rightarrow> Inl exc)"

text \<open>The dictionaries appended to \<^verbatim>\<open>results_open\<close> and \<^verbatim>\<open>results_closed\<close>.\<close>

record open_entry =
  o_port :: int
  o_elapsed :: real

record closed_entry =
  c_port :: int
  c_error :: "string option"
  c_elapsed :: real

record results =
  results_open :: "open_entry list"
  results_closed :: "closed_entry list"

text \<open>
  The body of the \<^verbatim>\<open>for fut in as_completed(futures)\<close> loop, for the future of port \<open>p\<close>
  whose \<^verbatim>\<open>result()\<close> is \<open>r\<close>.
\<close>

definition collect :: "int \<Rightarrow> string + scan_result \<Rightarrow> results \<Rightarrow> results" where
  "collect p r st =
     (case r of
        Inr (port, is_open, err, elapsed) \<Rightarrow>
          if is_open
          then st\<lparr>results_open := results_open st @ [\<lparr>o_port = port, o_elapsed = elapsed\<rparr>]\<rparr>
          else st\<lparr>results_closed := results_closed st @
                     [\<lparr>c_port = port, c_error = err, c_elapsed = elapsed\<rparr>]\<rparr>
      | Inl exc \<Rightarrow>
          st\<lparr>results_closed := results_closed st @
                 [\<lparr>c_port = p, c_error = Some exc, c_elapsed = 0\<rparr>]\<rparr>)"

text \<open>
  What the main thread meets while it iterates over \<^verbatim>\<open>as_completed\<close>: the future
  submitted at position \<open>i\<close> completes, or the user interrupts (the interrupt is taken
  inside the \<^verbatim>\<open>try\<close> block, where the handler of the source catches it). The order of the
  events is the order of completion, which the pool decides. The \<^verbatim>\<open>print\<close> calls are
  left out. The exceptions that leave
  \<^verbatim>\<open>scan_ports_concurrent\<close>: \<^verbatim>\<open>ValueError\<close> from the pool's constructor when
  \<^verbatim>\<open>max_workers\<close> is not positive, \<^verbatim>\<open>KeyError\<close> from \<^verbatim>\<open>futures[fut]\<close>, and the
  re-raised \<^verbatim>\<open>KeyboardInterrupt\<close>.
\<close>

datatype event = Completed nat | Interrupt

datatype exc = ValueError | KeyError | KeyboardInterrupt

text \<open>The dictionary \<^verbatim>\<open>futures\<close>: one future per position of \<^verbatim>\<open>ports\<close>, mapped to its port.\<close>

definition futures :: "int list \<Rightarrow> nat \<rightharpoonup> int" where
  "futures ports i = (if i < length ports then Some (ports ! i) else None)"

fun as_completed_loop ::
  "int list \<Rightarrow> (nat \<Rightarrow> worker) \<Rightarrow> event list \<Rightarrow> results \<Rightarrow> exc + results" where
  "as_completed_loop ports pool [] st = Inr st"
| "as_completed_loop ports pool (Interrupt # evs) st = Inl KeyboardInterrupt"
| "as_completed_loop ports pool (Completed i # evs) st =
     (case futures ports i of
        None \<Rightarrow> Inl KeyError
      | Some p \<Rightarrow> as_completed_loop ports pool evs (collect p (fut_result p (pool i)) st))"

text \<open>
  A run returns the dictionary of the two lists or raises; \<open>shutdown_calls\<close> lists the
  calls of \<^verbatim>\<open>executor.shutdown\<close> as pairs \<open>(wait, cancel_futures)\<close>: the one of the
  \<^verbatim>\<open>except KeyboardInterrupt\<close> handler, then the one of the \<^verbatim>\<open>with\<close> statement's exit.
\<close>

record run =
  shutdown_calls :: "(bool \<times> bool) list"
  outcome :: "exc + results"

definition scan_ports_concurrent ::
  "int list \<Rightarrow> int \<Rightarrow> (nat \<Rightarrow> worker) \<Rightarrow> event list \<Rightarrow> run" where
  "scan_ports_concurrent ports max_workers pool events =
     (if max_workers \<le> 0 then \<lparr>shutdown_calls = [], outcome = Inl ValueError\<rparr>
      else
        (case as_completed_loop ports pool events \<lparr>results_open = [], results_closed = []\<rparr> of
           Inl KeyboardInterrupt \<Rightarrow>
             \<lparr>shutdown_calls = [(False, True), (True, False)], outcome = Inl KeyboardInterrupt\<rparr>
         | Inl e \<Rightarrow> \<lparr>shutdown_calls = [(True, False)], outcome = Inl e\<rparr>
         | Inr st \<Rightarrow> \<lparr>shutdown_calls = [(True, False)], outcome = Inr st\<rparr>))"

text \<open>
  Vocabulary for the statements: the positions that completed in a sequence of events,
  the entries of a result as one multiset, the port of an entry, and the result of a
  scan that processes a single unit.
\<close>

fun completions :: "event list \<Rightarrow> nat list" where
  "completions [] = []"
| "completions (Completed i # evs) = i # completions evs"
| "completions (Interrupt # evs) = completions evs"

definition entries :: "results \<Rightarrow> (open_entry + closed_entry) multiset" where
  "entries st = mset (map Inl (results_open st)) + mset (map Inr (results_closed st))"

definition entry_port :: "open_entry + closed_entry \<Rightarrow> int" where
  "entry_port e = (case e of Inl x \<Rightarrow> o_port x | Inr y \<Rightarrow> c_port y)"

definition scanned_alone :: "int \<Rightarrow> worker \<Rightarrow> results" where
  "scanned_alone p w = collect p (fut_result p w) \<lparr>results_open = [], results_closed = []\<rparr>"

text \<open>A pool given by the list of what happened to each submitted call, in order.\<close>

definition pool_of :: "worker list \<Rightarrow> nat \<Rightarrow> worker" where
  "pool_of ws i = (if i < length ws then ws ! i else Broke ''no such future'')"

section \<open>Liveness and UDP probes\<close>

text \<open>
  \<^verbatim>\<open>ping_ip\<close> of \<^verbatim>\<open>Network_IP_Scanner.py\<close> and \<^verbatim>\<open>Recon_tool_Network+Port_Scanner.py\<close>
  (the two are the same): \<^verbatim>\<open>subprocess.run\<close> gives a completed process with its return
  code, or raises.
\<close>

datatype run_result = CompletedProcess int | RunRaised string

definition ping_ip :: "run_result \<Rightarrow> bool" where
  "ping_ip r = (case r of CompletedProcess returncode \<Rightarrow> returncode = 0 | RunRaised e \<Rightarrow> False)"

text \<open>
  \<^verbatim>\<open>is_port_open\<close> of \<^verbatim>\<open>Recon_tool_Network+Port_Scanner.py\<close>. The first argument tells
  what \<^verbatim>\<open>connect_ex\<close> does on the socket the function creates for the protocol (a
  stream socket for \<^verbatim>\<open>TCP\<close>, a datagram socket for \<^verbatim>\<open>UDP\<close>) with the host and port at
  hand. Nothing is caught here, so an exception of the socket call leaves the function.
\<close>

datatype probe_exc = InvalidProtocol | SocketException string

definition is_port_open :: "sock_result \<Rightarrow> string \<Rightarrow> probe_exc + bool" where
  "is_port_open sock proto =
     (if proto = ''TCP'' \<or> proto = ''UDP'' then
        (case sock of
           ConnectEx result \<Rightarrow> if result = 0 then Inr True else Inr False
         | SockRaised e \<Rightarrow> Inl (SocketException e))
      else Inl InvalidProtocol)"

section \<open>Subnet expansion\<close>

text \<open>
  The sweeps call \<^verbatim>\<open>ipaddress.ip_network(subnet_input, strict=False)\<close> and probe
  \<^verbatim>\<open>list(network.hosts())\<close>. The definitions follow \<^verbatim>\<open>IPv4Network\<close> of the standard
  library for an input that denotes the 32-bit address \<open>addr\<close> and the prefix length
  \<open>p\<close>: host bits are masked off, and \<^verbatim>\<open>hosts\<close> is replaced by the whole network for a
  prefix of 31 and by the single address for a prefix of 32. \<open>None\<close> is the
  \<^verbatim>\<open>ValueError\<close> of an input that denotes no network.
\<close>

unbundle bit_operations_syntax

definition ALL_ONES :: int where
  "ALL_ONES = 2 ^ 32 - 1"

definition netmask :: "nat \<Rightarrow> int" where
  "netmask p = ALL_ONES XOR (drop_bit p ALL_ONES)"

definition hostmask :: "nat \<Rightarrow> int" where
  "hostmask p = netmask p XOR ALL_ONES"

record ipv4_network =
  network_address :: int
  prefixlen :: nat

definition ip_network :: "int \<Rightarrow> nat \<Rightarrow> ipv4_network option" where
  "ip_network addr p =
     (if addr < 0 \<or> addr > ALL_ONES \<or> p > 32 then None
      else Some \<lparr>network_address = addr AND netmask p, prefixlen = p\<rparr>)"

definition broadcast_address :: "ipv4_network \<Rightarrow> int" where
  "broadcast_address net = network_address net OR hostmask (prefixlen net)"

definition hosts :: "ipv4_network \<Rightarrow> int list" where
  "hosts net =
     (if prefixlen net = 31 then [network_address net..broadcast_address net]
      else if prefixlen net = 32 then [network_address net]
      else [network_address net + 1..broadcast_address net - 1])"

section \<open>Properties of the string primitives\<close>

lemma split_from_no_space:
  "\<forall>c\<in>set s. \<not> is_space c \<Longrightarrow> split_from cur s = (if cur @ s = [] then [] else [cur @ s])"
  by (induction s arbitrary: cur) auto

lemma is_digit_char_of: "0 \<le> d \<Longrightarrow> d < 10 \<Longrightarrow> is_digit (char_of (48 + d :: int))"
  by (simp add: is_digit_def)

lemma digit_val_char_of: "0 \<le> d \<Longrightarrow> d < 10 \<Longrightarrow> digit_val (char_of (48 + d :: int)) = d"
  by (simp add: digit_val_def)

lemma is_digit_not_space: "is_digit c \<Longrightarrow> \<not> is_space c"
  by (auto simp: is_digit_def is_space_def)

lemma is_int_space_is_space: "is_int_space c \<Longrightarrow> is_space c"
  by (auto simp: is_int_space_def is_space_def)

lemma is_digit_not_dash: "is_digit c \<Longrightarrow> c \<noteq> CHR ''-''"
  by (auto simp: is_digit_def)

lemma is_digit_not_plus: "is_digit c \<Longrightarrow> c \<noteq> CHR ''+''"
  by (auto simp: is_digit_def)

lemma is_digit_not_comma: "is_digit c \<Longrightarrow> c \<noteq> CHR '',''"
  by (auto simp: is_digit_def)

lemma str_digits_digits: "0 \<le> n \<Longrightarrow> \<forall>c\<in>set (str_digits n). is_digit c"
proof (induction n rule: str_digits.induct)
  case (1 n)
  show ?case
  proof (cases "n < 10")
    case True
    with 1(2) show ?thesis by (subst str_digits.simps) (simp add: is_digit_char_of)
  next
    case False
    then have "0 \<le> n div 10" by simp
    with 1 False show ?thesis by (subst str_digits.simps) (simp add: is_digit_char_of)
  qed
qed

lemma str_digits_nonempty: "str_digits n \<noteq> []"
  by (subst str_digits.simps) simp

lemma py_digits_snoc:
  "\<forall>c\<in>set xs. is_digit c \<Longrightarrow> is_digit d \<Longrightarrow>
   py_digits acc (xs @ [d]) = map_option (\<lambda>v. 10 * v + digit_val d) (py_digits acc xs)"
  by (induction acc xs rule: py_digits.induct) simp_all

lemma py_literal_snoc:
  "xs \<noteq> [] \<Longrightarrow> \<forall>c\<in>set xs. is_digit c \<Longrightarrow> is_digit d \<Longrightarrow>
   py_literal (xs @ [d]) = map_option (\<lambda>v. 10 * v + digit_val d) (py_literal xs)"
  by (cases xs) (simp_all add: py_literal_def py_digits_snoc)

lemma py_literal_str_digits: "0 \<le> n \<Longrightarrow> py_literal (str_digits n) = Some n"
proof (induction n rule: str_digits.induct)
  case (1 n)
  show ?case
  proof (cases "n < 10")
    case True
    with 1(2) show ?thesis
      by (subst str_digits.simps) (simp add: py_literal_def is_digit_char_of digit_val_char_of)
  next
    case False
    then have d: "0 \<le> n div 10" by simp
    have "py_literal (str_digits n) =
            py_literal (str_digits (n div 10) @ [char_of (48 + n mod 10)])"
      using False by (subst str_digits.simps) simp
    also have "\<dots> = map_option (\<lambda>v. 10 * v + digit_val (char_of (48 + n mod 10)))
                       (py_literal (str_digits (n div 10)))"
      using d by (intro py_literal_snoc) (simp_all add: str_digits_nonempty str_digits_digits is_digit_char_of)
    also have "\<dots> = Some n"
      using 1(1) [OF False d] by (simp add: digit_val_char_of)
    finally show ?thesis .
  qed
qed

lemma dropWhile_none: "\<forall>c\<in>set s. \<not> P c \<Longrightarrow> dropWhile P s = s"
  by (cases s) auto

lemma strip_no_space: "\<forall>c\<in>set s. \<not> is_space c \<Longrightarrow> strip s = s"
proof -
  assume "\<forall>c\<in>set s. \<not> is_space c"
  then have "\<forall>c\<in>set s. \<not> is_int_space c"
    using is_int_space_is_space by blast
  then show ?thesis by (simp add: strip_def dropWhile_none)
qed

lemma length_str_digits:
  "0 \<le> n \<Longrightarrow> n < 10 ^ k \<Longrightarrow> 0 < k \<Longrightarrow> length (str_digits n) \<le> k"
proof (induction n arbitrary: k rule: str_digits.induct)
  case (1 n)
  show ?case
  proof (cases "n < 10")
    case True
    with 1(4) show ?thesis by (subst str_digits.simps) simp
  next
    case False
    obtain j where k: "k = Suc j" using 1(4) by (cases k) auto
    with False 1(3) have j: "0 < j" by (cases j) auto
    define m :: int where "m = 10 ^ j"
    have "n < 10 * m" using 1(3) k by (simp add: m_def)
    then have "n div 10 < m" by linarith
    then have "n div 10 < 10 ^ j" by (simp add: m_def)
    moreover have "0 \<le> n div 10" using False by simp
    ultimately have "length (str_digits (n div 10)) \<le> j"
      using 1(1) [OF False] j by blast
    with False k show ?thesis by (subst str_digits.simps) simp
  qed
qed

lemma py_unsigned_str_digits:
  assumes "0 \<le> n" "n \<le> 65535"
  shows "py_unsigned (str_digits n) = Some n"
proof -
  have "length (str_digits n) \<le> 5"
    using assms by (intro length_str_digits) simp_all
  moreover have "length (filter is_digit (str_digits n)) \<le> length (str_digits n)"
    by (rule length_filter_le)
  ultimately have "length (filter is_digit (str_digits n)) \<le> 5"
    by (rule order_trans [rotated])
  then have "\<not> int_max_str_digits < int (length (filter is_digit (str_digits n)))"
    by (simp add: int_max_str_digits_def)
  then show ?thesis
    using py_literal_str_digits [OF assms(1)] by (simp add: py_unsigned_def)
qed

lemma py_int_str_digits:
  assumes "0 \<le> n" "n \<le> 65535"
  shows "py_int (str_digits n) = Some n"
proof -
  have dg: "\<forall>c\<in>set (str_digits n). is_digit c"
    using assms(1) by (rule str_digits_digits)
  have sp: "strip (str_digits n) = str_digits n"
    by (rule strip_no_space) (use dg is_digit_not_space in blast)
  obtain c cs where cs: "str_digits n = c # cs"
    using str_digits_nonempty by (cases "str_digits n") auto
  then have "is_digit c" using dg by simp
  then have "c \<noteq> CHR ''-''" "c \<noteq> CHR ''+''"
    using is_digit_not_dash is_digit_not_plus by blast+
  then show ?thesis
    using sp cs py_unsigned_str_digits [OF assms] by (simp add: py_int_def)
qed

text \<open>A literal with more digits than the limit is rejected, whatever else it holds.\<close>

lemma filter_dropWhile_other:
  "(\<And>x. Q x \<Longrightarrow> \<not> P x) \<Longrightarrow> filter P (dropWhile Q xs) = filter P xs"
  by (induction xs) auto

lemma is_int_space_not_digit: "is_int_space c \<Longrightarrow> \<not> is_digit c"
  by (auto simp: is_int_space_def is_digit_def)

lemma digits_strip: "filter is_digit (strip s) = filter is_digit s"
proof -
  have "filter is_digit (strip s) =
          rev (filter is_digit (dropWhile is_int_space (rev (dropWhile is_int_space s))))"
    by (simp add: strip_def rev_filter)
  also have "\<dots> = rev (filter is_digit (rev (dropWhile is_int_space s)))"
    by (simp add: filter_dropWhile_other is_int_space_not_digit)
  also have "\<dots> = filter is_digit (dropWhile is_int_space s)"
    by (simp add: rev_filter [symmetric])
  also have "\<dots> = filter is_digit s"
    by (simp add: filter_dropWhile_other is_int_space_not_digit)
  finally show ?thesis .
qed

lemma py_int_over_limit:
  assumes "int_max_str_digits < int (length (filter is_digit s))"
  shows "py_int s = None"
proof (cases "strip s")
  case Nil
  then show ?thesis by (simp add: py_int_def)
next
  case (Cons c cs)
  have n: "int_max_str_digits < int (length (filter is_digit (c # cs)))"
    using assms digits_strip [of s] Cons by simp
  have "\<not> is_digit CHR ''-''" "\<not> is_digit CHR ''+''"
    by (simp_all add: is_digit_def)
  with n have "c = CHR ''-'' \<or> c = CHR ''+'' \<Longrightarrow>
      int_max_str_digits < int (length (filter is_digit cs))"
    by auto
  with n Cons show ?thesis by (auto simp: py_int_def py_unsigned_def)
qed

section \<open>Properties of the port parsers\<close>

lemma parse_token_raises_iff:
  "(\<exists>err. parse_token token ports = Inl err) \<longleftrightarrow> \<not> well_formed_token token"
  by (auto simp: parse_token_def well_formed_token_def valid_port_def
           split: option.splits prod.splits if_splits)

lemma parse_loop_raises_iff:
  "(\<exists>err. parse_loop tokens ports = Inl err) \<longleftrightarrow> (\<exists>t\<in>set tokens. \<not> well_formed_token t)"
proof (induction tokens arbitrary: ports)
  case Nil
  then show ?case by simp
next
  case (Cons t ts)
  show ?case
  proof (cases "parse_token t ports")
    case (Inl err)
    then have "\<not> well_formed_token t" using parse_token_raises_iff by blast
    with Inl show ?thesis by simp
  next
    case (Inr ports')
    then have "well_formed_token t" using parse_token_raises_iff [of t ports] by auto
    with Inr Cons.IH [of ports'] show ?thesis by simp
  qed
qed

lemma parse_ports_raises_iff:
  "(\<exists>err. parse_ports s = Inl err) \<longleftrightarrow>
   (\<exists>t\<in>set (str_split (replace_commas s)). \<not> well_formed_token t)"
proof -
  have "(\<exists>err. parse_ports s = Inl err) \<longleftrightarrow>
        (\<exists>err. parse_loop (str_split (replace_commas s)) {} = Inl err)"
    by (auto simp: parse_ports_def split: sum.splits)
  then show ?thesis using parse_loop_raises_iff by simp
qed

lemma parse_ports_simple_loop_raises_iff:
  "(\<exists>err. parse_ports_simple_loop tokens ports = Inl err) \<longleftrightarrow> (\<exists>t\<in>set tokens. py_int t = None)"
  by (induction tokens arbitrary: ports) (auto split: option.splits)

lemma split_dash_digits:
  assumes "\<forall>c\<in>set xs. is_digit c"
  shows "split_dash (xs @ CHR ''-'' # ys) = (xs, ys)"
proof -
  have "\<forall>c\<in>set xs. c \<noteq> CHR ''-''" using assms is_digit_not_dash by blast
  then show ?thesis by (simp add: split_dash_def takeWhile_append2 dropWhile_append2)
qed

lemma str_split_word:
  assumes "s \<noteq> []" "\<forall>c\<in>set s. \<not> is_space c"
  shows "str_split s = [s]"
  using assms by (simp add: str_split_def split_from_no_space)

lemma replace_commas_none: "\<forall>c\<in>set s. c \<noteq> CHR '','' \<Longrightarrow> replace_commas s = s"
  by (simp add: replace_commas_def map_idI)

lemma range_chars:
  assumes "0 \<le> a" "0 \<le> b"
  shows "\<forall>c\<in>set (str_digits a @ CHR ''-'' # str_digits b). \<not> is_space c \<and> c \<noteq> CHR '',''"
proof
  fix c assume "c \<in> set (str_digits a @ CHR ''-'' # str_digits b)"
  then consider "is_digit c" | "c = CHR ''-''"
    using str_digits_digits [OF assms(1)] str_digits_digits [OF assms(2)] by auto
  then show "\<not> is_space c \<and> c \<noteq> CHR '',''"
  proof cases
    case 1
    then show ?thesis using is_digit_not_space is_digit_not_comma by blast
  next
    case 2
    then show ?thesis by (simp add: is_space_def)
  qed
qed

lemma tokens_range:
  assumes "0 \<le> a" "0 \<le> b"
  shows "str_split (replace_commas (str_digits a @ CHR ''-'' # str_digits b)) =
           [str_digits a @ CHR ''-'' # str_digits b]"
proof -
  let ?t = "str_digits a @ CHR ''-'' # str_digits b"
  have "replace_commas ?t = ?t"
    using range_chars [OF assms] by (intro replace_commas_none) blast
  moreover have "str_split ?t = [?t]"
    using range_chars [OF assms] by (intro str_split_word) auto
  ultimately show ?thesis by simp
qed

lemma parse_token_range:
  assumes "1 \<le> min a b" "max a b \<le> 65535"
  shows "parse_token (str_digits a @ CHR ''-'' # str_digits b) ports =
           Inr (ports \<union> {min a b..max a b})"
proof -
  let ?t = "str_digits a @ CHR ''-'' # str_digits b"
  have a: "0 \<le> a" "a \<le> 65535" and b: "0 \<le> b" "b \<le> 65535"
    using assms by simp_all
  have "CHR ''-'' \<in> set ?t" by simp
  moreover have "split_dash ?t = (str_digits a, str_digits b)"
    by (rule split_dash_digits) (rule str_digits_digits [OF a(1)])
  moreover have "py_int (str_digits a) = Some a" "py_int (str_digits b) = Some b"
    using a b by (simp_all add: py_int_str_digits)
  moreover have "1 \<le> a" "1 \<le> b" using assms(1) by simp_all
  ultimately show ?thesis
    using a b by (auto simp: parse_token_def min_def max_def)
qed

lemma sorted_list_of_set_range: "sorted_list_of_set {a..b::int} = [a..b]"
proof -
  have "sorted_list_of_set (set [a..b]) = [a..b]"
    by (rule sorted_list_of_set.idem_if_sorted_distinct) simp_all
  then show ?thesis by simp
qed

lemma parse_ports_py_str_range:
  assumes "1 \<le> min a b" "max a b \<le> 65535"
  shows "parse_ports (py_str a @ ''-'' @ py_str b) = Inr [min a b..max a b]"
proof -
  have pos: "0 \<le> a" "0 \<le> b" using assms(1) by simp_all
  then have tok: "py_str a @ ''-'' @ py_str b = str_digits a @ CHR ''-'' # str_digits b"
    by (simp add: py_str_def)
  have "parse_loop [str_digits a @ CHR ''-'' # str_digits b] {} = Inr {min a b..max a b}"
    by (simp add: parse_token_range [OF assms])
  then show ?thesis
    unfolding tok by (simp add: parse_ports_def tokens_range [OF pos] sorted_list_of_set_range)
qed

text \<open>
  Claim C4, as amended. For every input string over the code points 0..255, with the
  interpreter's limit on integer literals at its default of 4300 digits:
  \<^verbatim>\<open>parse_ports\<close> raises \<^verbatim>\<open>ValueError\<close>, and returns no list, exactly when one of the
  tokens of its input is not well formed, that is, \<^verbatim>\<open>int\<close> rejects the token (or the
  part before or after its first dash) or a value lies outside 1..65535;
  \<^verbatim>\<open>parse_ports_simple\<close> raises exactly when \<^verbatim>\<open>int\<close> rejects one of its tokens, and has
  no range check.
\<close>

theorem expander_rejects_bad_tokens:
  "((\<exists>err. parse_ports s = Inl err) \<longleftrightarrow>
      (\<exists>t\<in>set (str_split (replace_commas s)). \<not> well_formed_token t)) \<and>
   ((\<exists>err. parse_ports_simple s = Inl err) \<longleftrightarrow>
      (\<exists>t\<in>set (str_split s). py_int t = None))"
  using parse_ports_raises_iff [of s] parse_ports_simple_loop_raises_iff [of "str_split s" "[]"]
  by (simp add: parse_ports_simple_def)

theorem expander_rejects_bad_tokens_witness:
  "(\<exists>t\<in>set (str_split (replace_commas ''22,99999'')). \<not> well_formed_token t) \<and>
   (\<exists>err. parse_ports ''22,99999'' = Inl err) \<and>
   (\<exists>t\<in>set (str_split ''22 4x3''). py_int t = None) \<and>
   (\<exists>err. parse_ports_simple ''22 4x3'' = Inl err)"
proof -
  have h1: "\<exists>t\<in>set (str_split (replace_commas ''22,99999'')). \<not> well_formed_token t"
    by code_simp
  have h2: "\<exists>t\<in>set (str_split ''22 4x3''). py_int t = None"
    by code_simp
  show ?thesis
    using h1 h2 expander_rejects_bad_tokens [of "''22,99999''"]
      expander_rejects_bad_tokens [of "''22 4x3''"] by blast
qed

text \<open>
  Claim C4 as stated fails on \<^verbatim>\<open>parse_ports_simple\<close>: the token \<^verbatim>\<open>99999\<close> is outside
  1..65535 and is returned as a port.
\<close>

theorem simple_parser_counterexample:
  "parse_ports_simple ''99999'' = Inr [99999] \<and> \<not> valid_port 99999"
  by code_simp

text \<open>
  Claim C5. For \<open>1 \<le> a \<le> b \<le> 65535\<close>, \<^verbatim>\<open>parse_ports\<close> applied to the range \<^verbatim>\<open>a-b\<close>
  returns the integers from \<open>a\<close> to \<open>b\<close>, each once, in strictly ascending order.
\<close>

theorem parse_ports_range_ascending:
  assumes "1 \<le> a" "a \<le> b" "b \<le> 65535"
  shows "\<exists>ps. parse_ports (py_str a @ ''-'' @ py_str b) = Inr ps \<and> ps = [a..b] \<and>
           set ps = {a..b} \<and> sorted_wrt (<) ps \<and> distinct ps"
proof -
  have "parse_ports (py_str a @ ''-'' @ py_str b) = Inr [min a b..max a b]"
    using assms by (intro parse_ports_py_str_range) simp_all
  moreover have "min a b = a" "max a b = b" using assms by simp_all
  ultimately have "parse_ports (py_str a @ ''-'' @ py_str b) = Inr [a..b]" by simp
  moreover have "sorted_wrt (<) [a..b]"
    by (simp add: strict_sorted_iff)
  ultimately show ?thesis by simp
qed

theorem parse_ports_range_ascending_witness:
  "(1::int) \<le> 20 \<and> (20::int) \<le> 25 \<and> (25::int) \<le> 65535 \<and>
   parse_ports ''20-25'' = Inr [20, 21, 22, 23, 24, 25]"
proof -
  have s: "py_str 20 @ ''-'' @ py_str 25 = ''20-25''" by code_simp
  have u: "[20..25] = [20, 21, 22, 23, 24, 25 :: int]" by code_simp
  show ?thesis
    using parse_ports_range_ascending [of 20 25] unfolding s u by simp
qed

text \<open>
  Claim C10. When both ends lie in 1..65535, \<^verbatim>\<open>parse_ports\<close> gives the same list for
  \<^verbatim>\<open>a-b\<close> and for \<^verbatim>\<open>b-a\<close>: the integers from the smaller end to the larger one.
\<close>

theorem parse_ports_reversed_range:
  assumes "1 \<le> min a b" "max a b \<le> 65535"
  shows "parse_ports (py_str a @ ''-'' @ py_str b) = parse_ports (py_str b @ ''-'' @ py_str a) \<and>
         parse_ports (py_str a @ ''-'' @ py_str b) = Inr [min a b..max a b]"
proof -
  have ab: "parse_ports (py_str a @ ''-'' @ py_str b) = Inr [min a b..max a b]"
    using assms by (rule parse_ports_py_str_range)
  have "parse_ports (py_str b @ ''-'' @ py_str a) = Inr [min b a..max b a]"
    using assms by (intro parse_ports_py_str_range) (simp_all add: min.commute max.commute)
  then have "parse_ports (py_str b @ ''-'' @ py_str a) = Inr [min a b..max a b]"
    by (simp add: min.commute max.commute)
  with ab show ?thesis by simp
qed

theorem parse_ports_reversed_range_witness:
  "(1::int) \<le> min 25 20 \<and> max (25::int) 20 \<le> 65535 \<and>
   parse_ports ''25-20'' = parse_ports ''20-25'' \<and>
   parse_ports ''25-20'' = Inr [20, 21, 22, 23, 24, 25]"
proof -
  have h1: "(1::int) \<le> min 25 20" and h2: "max (25::int) 20 \<le> 65535" by simp_all
  have s: "py_str 25 @ ''-'' @ py_str 20 = ''25-20''" "py_str 20 @ ''-'' @ py_str 25 = ''20-25''"
    by code_simp+
  have u: "[min 25 20..max 25 20] = [20, 21, 22, 23, 24, 25 :: int]" by code_simp
  note r = parse_ports_reversed_range [OF h1 h2, unfolded s u]
  show ?thesis using h1 h2 r by blast
qed

section \<open>Properties of the concurrent scan\<close>

lemma entries_collect:
  "entries (collect p r st) =
     entries st + entries (collect p r \<lparr>results_open = [], results_closed = []\<rparr>)"
  by (auto simp: entries_def collect_def split: sum.splits prod.splits)

lemma size_entries_alone: "size (entries (scanned_alone p w)) = 1"
  by (auto simp: entries_def scanned_alone_def collect_def split: sum.splits prod.splits)

lemma port_entries_alone: "image_mset entry_port (entries (scanned_alone p w)) = {#p#}"
  by (auto simp: entries_def scanned_alone_def collect_def fut_result_def scan_port_def
        entry_port_def split: sum.splits prod.splits worker.splits sock_result.splits if_splits)

lemma as_completed_loop_entries:
  assumes "Interrupt \<notin> set events" "\<forall>i\<in>set (completions events). i < length ports"
  shows "\<exists>st'. as_completed_loop ports pool events st = Inr st' \<and>
           entries st' = entries st +
             (\<Sum>i\<in>#mset (completions events). entries (scanned_alone (ports ! i) (pool i)))"
  using assms
proof (induction events arbitrary: st)
  case Nil
  then show ?case by simp
next
  case (Cons ev evs)
  then obtain i where ev: "ev = Completed i" by (cases ev) auto
  with Cons.prems have i: "i < length ports" by simp
  let ?st1 = "collect (ports ! i) (fut_result (ports ! i) (pool i)) st"
  from Cons.prems ev have "Interrupt \<notin> set evs" "\<forall>i\<in>set (completions evs). i < length ports"
    by auto
  from Cons.IH [OF this, of ?st1] obtain st' where
    st': "as_completed_loop ports pool evs ?st1 = Inr st'"
      "entries st' = entries ?st1 +
         (\<Sum>i\<in>#mset (completions evs). entries (scanned_alone (ports ! i) (pool i)))"
    by blast
  have "entries ?st1 = entries st + entries (scanned_alone (ports ! i) (pool i))"
    unfolding scanned_alone_def by (rule entries_collect)
  with st' ev i show ?case by (simp add: futures_def)
qed

lemma as_completed_loop_interrupt:
  assumes "Interrupt \<in> set events" "\<forall>i\<in>set (completions events). i < length ports"
  shows "as_completed_loop ports pool events st = Inl KeyboardInterrupt"
  using assms
proof (induction events arbitrary: st)
  case Nil
  then show ?case by simp
next
  case (Cons ev evs)
  show ?case
  proof (cases ev)
    case (Completed i)
    with Cons.prems have "Interrupt \<in> set evs" "\<forall>i\<in>set (completions evs). i < length ports"
      "i < length ports" by auto
    with Cons.IH Completed show ?thesis by (simp add: futures_def)
  next
    case Interrupt
    then show ?thesis by simp
  qed
qed

lemma size_sum_alone:
  "size (\<Sum>i\<in>#M. entries (scanned_alone (f i) (g i))) = size M"
  by (induction M) (simp_all add: size_entries_alone)

lemma ports_sum_alone:
  "image_mset entry_port (\<Sum>i\<in>#M. entries (scanned_alone (f i) (g i))) = image_mset f M"
  by (induction M) (simp_all add: port_entries_alone)

lemma alone_subset_sum:
  "j \<in># M \<Longrightarrow>
   entries (scanned_alone (f j) (g j)) \<subseteq># (\<Sum>i\<in>#M. entries (scanned_alone (f i) (g i)))"
  by (auto dest!: multi_member_split)

lemma size_entries: "size (entries st) = length (results_open st) + length (results_closed st)"
  by (simp add: entries_def)

lemma ports_entries:
  "image_mset entry_port (entries st) =
     mset (map o_port (results_open st)) + mset (map c_port (results_closed st))"
  by (simp add: entries_def entry_port_def multiset.map_comp comp_def)

lemma closed_in_entries: "Inr e \<in># entries st \<longleftrightarrow> e \<in> set (results_closed st)"
  by (auto simp: entries_def)

lemma mset_nth_upt: "image_mset ((!) xs) (mset [0..<length xs]) = mset xs"
proof -
  have "image_mset ((!) xs) (mset [0..<length xs]) = mset (map ((!) xs) [0..<length xs])"
    by simp
  then show ?thesis by (simp only: map_nth)
qed

lemma scan_complete_run:
  assumes "1 \<le> max_workers" "Interrupt \<notin> set events"
    and "mset (completions events) = mset [0..<length ports]"
  shows "\<exists>report. outcome (scan_ports_concurrent ports max_workers pool events) = Inr report \<and>
           entries report =
             (\<Sum>i\<in>#mset [0..<length ports]. entries (scanned_alone (ports ! i) (pool i)))"
proof -
  let ?st0 = "\<lparr>results_open = [], results_closed = []\<rparr>"
  have "set (completions events) = set [0..<length ports]"
    using assms(3) by (metis set_mset_mset)
  then have "\<forall>i\<in>set (completions events). i < length ports" by simp
  from as_completed_loop_entries [OF assms(2) this, of pool ?st0]
  obtain st' where st': "as_completed_loop ports pool events ?st0 = Inr st'"
    "entries st' = entries ?st0 +
       (\<Sum>i\<in>#mset (completions events). entries (scanned_alone (ports ! i) (pool i)))"
    by blast
  from st'(2) assms(3) have
    "entries st' = (\<Sum>i\<in>#mset [0..<length ports]. entries (scanned_alone (ports ! i) (pool i)))"
    by (simp add: entries_def)
  with st'(1) assms(1) show ?thesis by (simp add: scan_ports_concurrent_def)
qed

text \<open>
  Claim C1, as amended. In every run of \<^verbatim>\<open>scan_ports_concurrent\<close> with a positive worker
  bound that is not interrupted, where every submitted future completes exactly once,
  the function returns, the open and the closed list together have as many entries as
  ports were submitted, and the ports of the entries are the submitted ports, each as
  often as it was submitted.
\<close>

theorem scan_totality_uninterrupted:
  assumes "1 \<le> max_workers" "Interrupt \<notin> set events"
    and "mset (completions events) = mset [0..<length ports]"
  shows "\<exists>report. outcome (scan_ports_concurrent ports max_workers pool events) = Inr report \<and>
           length (results_open report) + length (results_closed report) = length ports \<and>
           mset (map o_port (results_open report)) + mset (map c_port (results_closed report)) =
             mset ports"
proof -
  from scan_complete_run [OF assms] obtain report where
    r: "outcome (scan_ports_concurrent ports max_workers pool events) = Inr report"
    and e: "entries report =
      (\<Sum>i\<in>#mset [0..<length ports]. entries (scanned_alone (ports ! i) (pool i)))"
    by blast
  have "size (entries report) = length ports"
    unfolding e size_sum_alone by simp
  then have n: "length (results_open report) + length (results_closed report) = length ports"
    by (simp add: size_entries)
  have "image_mset entry_port (entries report) = mset ports"
    unfolding e ports_sum_alone by (rule mset_nth_upt)
  then have "mset (map o_port (results_open report)) + mset (map c_port (results_closed report)) =
      mset ports"
    by (simp only: ports_entries)
  with r n show ?thesis by blast
qed

theorem scan_totality_uninterrupted_witness:
  "(1::int) \<le> 4 \<and> Interrupt \<notin> set [Completed 2, Completed 0, Completed 1] \<and>
   mset (completions [Completed 2, Completed 0, Completed 1]) =
     mset [0..<length [22, 80, 443 :: int]] \<and>
   (\<exists>report. outcome (scan_ports_concurrent [22, 80, 443] 4
                (pool_of [Ran (ConnectEx 111) 1, Ran (ConnectEx 0) 0, Ran (ConnectEx 111) 1])
                [Completed 2, Completed 0, Completed 1]) = Inr report \<and>
      length (results_open report) + length (results_closed report) = length [22, 80, 443 :: int] \<and>
      mset (map o_port (results_open report)) + mset (map c_port (results_closed report)) =
        mset [22, 80, 443])"
proof -
  have h1: "(1::int) \<le> 4" by simp
  have h2: "Interrupt \<notin> set [Completed 2, Completed 0, Completed 1]" by simp
  have h3: "mset (completions [Completed 2, Completed 0, Completed 1]) =
      mset [0..<length [22, 80, 443 :: int]]"
    by (simp add: upt_rec)
  show ?thesis
    using h1 h2 h3 scan_totality_uninterrupted [OF h1 h2 h3] by blast
qed

text \<open>
  Claim C1 as stated fails on an interrupted run: of three submitted ports one has
  completed when the interrupt arrives, and the function raises instead of returning a
  result that accounts for the three.
\<close>

theorem scan_totality_counterexample:
  "outcome (scan_ports_concurrent [22, 80, 443] 4
     (pool_of [Ran (ConnectEx 0) 0, Ran (ConnectEx 0) 0, Ran (ConnectEx 0) 0])
     [Completed 0, Interrupt]) = Inl KeyboardInterrupt"
  by (simp add: scan_ports_concurrent_def futures_def)

text \<open>
  Claim C2. In an uninterrupted run, a unit whose probe raised is recorded in the closed
  list with its port and the text of the exception, whether \<^verbatim>\<open>scan_port\<close> caught the
  exception of the socket or the future itself raised; the run returns, and every
  unit has in the result the entry it gets when it is scanned alone, so a fault changes
  nothing for the other units.
\<close>

theorem probe_fault_recorded:
  assumes "1 \<le> max_workers" "Interrupt \<notin> set events"
    and "mset (completions events) = mset [0..<length ports]"
    and "i < length ports"
  shows "\<exists>report. outcome (scan_ports_concurrent ports max_workers pool events) = Inr report \<and>
           (\<forall>msg el. pool i = Ran (SockRaised msg) el \<longrightarrow>
              \<lparr>c_port = ports ! i, c_error = Some msg, c_elapsed = el\<rparr>
                \<in> set (results_closed report)) \<and>
           (\<forall>msg. pool i = Broke msg \<longrightarrow>
              \<lparr>c_port = ports ! i, c_error = Some msg, c_elapsed = 0\<rparr>
                \<in> set (results_closed report)) \<and>
           (\<forall>j<length ports. entries (scanned_alone (ports ! j) (pool j)) \<subseteq># entries report)"
proof -
  from scan_complete_run [OF assms(1-3)] obtain report where
    r: "outcome (scan_ports_concurrent ports max_workers pool events) = Inr report"
    and e: "entries report =
      (\<Sum>i\<in>#mset [0..<length ports]. entries (scanned_alone (ports ! i) (pool i)))"
    by blast
  have sub: "entries (scanned_alone (ports ! j) (pool j)) \<subseteq># entries report"
    if "j < length ports" for j
    unfolding e using that by (intro alone_subset_sum) simp
  have a: "\<lparr>c_port = ports ! i, c_error = Some msg, c_elapsed = el\<rparr> \<in> set (results_closed report)"
    if "pool i = Ran (SockRaised msg) el" for msg el
  proof -
    have "entries (scanned_alone (ports ! i) (pool i)) =
            {#Inr \<lparr>c_port = ports ! i, c_error = Some msg, c_elapsed = el\<rparr>#}"
      using that by (simp add: scanned_alone_def fut_result_def scan_port_def collect_def entries_def)
    with sub [OF assms(4)] have
      "Inr \<lparr>c_port = ports ! i, c_error = Some msg, c_elapsed = el\<rparr> \<in># entries report"
      by (simp add: mset_subset_eq_insertD)
    then show ?thesis by (simp only: closed_in_entries)
  qed
  have b: "\<lparr>c_port = ports ! i, c_error = Some msg, c_elapsed = 0\<rparr> \<in> set (results_closed report)"
    if "pool i = Broke msg" for msg
  proof -
    have "entries (scanned_alone (ports ! i) (pool i)) =
            {#Inr \<lparr>c_port = ports ! i, c_error = Some msg, c_elapsed = 0\<rparr>#}"
      using that by (simp add: scanned_alone_def fut_result_def collect_def entries_def)
    with sub [OF assms(4)] have
      "Inr \<lparr>c_port = ports ! i, c_error = Some msg, c_elapsed = 0\<rparr> \<in># entries report"
      by (simp add: mset_subset_eq_insertD)
    then show ?thesis by (simp only: closed_in_entries)
  qed
  from r a b sub show ?thesis by blast
qed

theorem probe_fault_recorded_witness:
  "\<exists>report. outcome (scan_ports_concurrent [22, 80, 443] 4
               (pool_of [Ran (ConnectEx 0) 0, Ran (SockRaised ''unreachable'') 1, Broke ''broken''])
               [Completed 1, Completed 2, Completed 0]) = Inr report \<and>
     \<lparr>c_port = 80, c_error = Some ''unreachable'', c_elapsed = 1\<rparr> \<in> set (results_closed report) \<and>
     \<lparr>c_port = 443, c_error = Some ''broken'', c_elapsed = 0\<rparr> \<in> set (results_closed report)"
proof -
  let ?pool = "pool_of [Ran (ConnectEx 0) 0, Ran (SockRaised ''unreachable'') 1, Broke ''broken'']"
  have h1: "(1::int) \<le> 4" by simp
  have h2: "Interrupt \<notin> set [Completed 1, Completed 2, Completed 0]" by simp
  have h3: "mset (completions [Completed 1, Completed 2, Completed 0]) =
      mset [0..<length [22, 80, 443 :: int]]"
    by (simp add: upt_rec)
  have i1: "1 < length [22, 80, 443 :: int]" and i2: "2 < length [22, 80, 443 :: int]" by simp_all
  have p1: "?pool 1 = Ran (SockRaised ''unreachable'') 1" and p2: "?pool 2 = Broke ''broken''"
    by (simp_all add: pool_of_def)
  from probe_fault_recorded [OF h1 h2 h3 i1, of ?pool] p1 obtain report where
    r: "outcome (scan_ports_concurrent [22, 80, 443] 4 ?pool
          [Completed 1, Completed 2, Completed 0]) = Inr report"
    and c1: "\<lparr>c_port = [22, 80, 443] ! 1, c_error = Some ''unreachable'', c_elapsed = 1\<rparr>
          \<in> set (results_closed report)"
    by blast
  from probe_fault_recorded [OF h1 h2 h3 i2, of ?pool] p2 r have
    c2: "\<lparr>c_port = [22, 80, 443] ! 2, c_error = Some ''broken'', c_elapsed = 0\<rparr>
          \<in> set (results_closed report)"
    by auto
  from r c1 c2 show ?thesis by auto
qed

text \<open>
  Claim C3, as amended. When the interrupt arrives while the results are collected,
  \<^verbatim>\<open>scan_ports_concurrent\<close> asks the pool to shut down without waiting and to cancel the
  futures that have not started, and raises \<^verbatim>\<open>KeyboardInterrupt\<close> again: it returns no
  result, so no unit, dispatched or not, is surfaced as an outcome.
\<close>

theorem scan_interrupted_raises:
  assumes "1 \<le> max_workers" "Interrupt \<in> set events"
    and "\<forall>i\<in>set (completions events). i < length ports"
  shows "outcome (scan_ports_concurrent ports max_workers pool events) = Inl KeyboardInterrupt \<and>
         shutdown_calls (scan_ports_concurrent ports max_workers pool events) =
           [(False, True), (True, False)]"
  using assms(1) as_completed_loop_interrupt [OF assms(2,3)]
  by (simp add: scan_ports_concurrent_def)

theorem scan_interrupted_raises_witness:
  "outcome (scan_ports_concurrent [22, 80, 443] 4
     (pool_of [Ran (ConnectEx 0) 0, Ran (ConnectEx 111) 1, Ran (ConnectEx 111) 1])
     [Completed 1, Interrupt, Completed 0]) = Inl KeyboardInterrupt \<and>
   shutdown_calls (scan_ports_concurrent [22, 80, 443] 4
     (pool_of [Ran (ConnectEx 0) 0, Ran (ConnectEx 111) 1, Ran (ConnectEx 111) 1])
     [Completed 1, Interrupt, Completed 0]) = [(False, True), (True, False)]"
proof -
  have h1: "(1::int) \<le> 4" by simp
  have h2: "Interrupt \<in> set [Completed 1, Interrupt, Completed 0]" by simp
  have h3: "\<forall>i\<in>set (completions [Completed 1, Interrupt, Completed 0]).
      i < length [22, 80, 443 :: int]"
    by simp
  show ?thesis by (rule scan_interrupted_raises [OF h1 h2 h3])
qed

text \<open>
  Claim C3 as stated fails: ten ports are submitted to three workers whose probes take
  five seconds, and the interrupt arrives before any of them completes. The function
  raises; there is no result in which the seven other units are marked as cancelled.
\<close>

theorem cancelled_units_counterexample:
  "outcome (scan_ports_concurrent [1, 2, 3, 4, 5, 6, 7, 8, 9, 10] 3
     (pool_of [Ran (ConnectEx 110) 5, Ran (ConnectEx 110) 5, Ran (ConnectEx 110) 5])
     [Interrupt]) = Inl KeyboardInterrupt"
  by (simp add: scan_ports_concurrent_def)

section \<open>Properties of the probes\<close>

text \<open>
  Claim C6, as amended. \<^verbatim>\<open>ping_ip\<close> has two answers only. When the ping invocation
  raises it returns \<open>False\<close>, the answer it also gives for a host whose ping ended with
  a return code other than 0.
\<close>

theorem ping_failure_reported_down:
  "ping_ip (RunRaised e) = False \<and> ping_ip (CompletedProcess returncode) = (returncode = 0)"
  by (simp add: ping_ip_def)

text \<open>
  Claim C6 as stated fails: a failed invocation and a host that is down give the same
  answer.
\<close>

theorem ping_error_counterexample:
  "ping_ip (RunRaised ''ping: command not found'') = ping_ip (CompletedProcess 1)"
  by (simp add: ping_ip_def)

text \<open>
  Claim C7, as amended. For \<^verbatim>\<open>UDP\<close>, \<^verbatim>\<open>is_port_open\<close> answers \<open>True\<close> exactly when
  \<^verbatim>\<open>connect_ex\<close> on the datagram socket returns 0 and \<open>False\<close> exactly when it returns
  another code; when the socket call raises, the exception leaves the function and
  there is no answer.
\<close>

theorem udp_probe_answers:
  "(is_port_open sock ''UDP'' = Inr True \<longleftrightarrow> sock = ConnectEx 0) \<and>
   (is_port_open sock ''UDP'' = Inr False \<longleftrightarrow> (\<exists>code. code \<noteq> 0 \<and> sock = ConnectEx code)) \<and>
   (is_port_open sock ''UDP'' = Inl (SocketException e) \<longleftrightarrow> sock = SockRaised e)"
  by (cases sock) (auto simp: is_port_open_def)

theorem udp_probe_answers_witness:
  "is_port_open (ConnectEx 0) ''UDP'' = Inr True \<and>
   is_port_open (ConnectEx 101) ''UDP'' = Inr False"
  using udp_probe_answers [of "ConnectEx 0"] udp_probe_answers [of "ConnectEx 101"] by simp

text \<open>
  Claim C7 as stated fails: when the host name does not resolve, \<^verbatim>\<open>connect_ex\<close> raises
  and the probe reports neither open nor closed.
\<close>

theorem udp_probe_counterexample:
  "is_port_open (SockRaised ''Name or service not known'') ''UDP'' =
     Inl (SocketException ''Name or service not known'')"
  by (simp add: is_port_open_def)

section \<open>Properties of the subnet expansion\<close>

text \<open>
  Claim C8, as amended. For a subnet with a prefix length of at most 30 the hosts that
  are probed are the addresses strictly between the network address and the broadcast
  address, so neither of the two is probed. For a prefix length of 31 every address
  from the network address to the broadcast address is probed, and for a prefix length
  of 32 the single address.
\<close>

theorem hosts_exclude_network_and_broadcast:
  assumes "ip_network addr p = Some net"
  shows "(p \<le> 30 \<longrightarrow> network_address net \<notin> set (hosts net) \<and>
                      broadcast_address net \<notin> set (hosts net) \<and>
                      set (hosts net) = {network_address net<..<broadcast_address net}) \<and>
         (p = 31 \<longrightarrow> hosts net = [network_address net..broadcast_address net]) \<and>
         (p = 32 \<longrightarrow> hosts net = [network_address net])"
proof -
  from assms have "prefixlen net = p"
    by (auto simp: ip_network_def split: if_splits)
  then show ?thesis by (auto simp: hosts_def)
qed

theorem hosts_exclude_network_and_broadcast_witness:
  "ip_network 3232235853 29 = Some \<lparr>network_address = 3232235848, prefixlen = 29\<rparr> \<and>
   broadcast_address \<lparr>network_address = 3232235848, prefixlen = 29\<rparr> = 3232235855 \<and>
   hosts \<lparr>network_address = 3232235848, prefixlen = 29\<rparr> =
     [3232235849, 3232235850, 3232235851, 3232235852, 3232235853, 3232235854] \<and>
   3232235848 \<notin> set (hosts \<lparr>network_address = 3232235848, prefixlen = 29\<rparr>) \<and>
   3232235855 \<notin> set (hosts \<lparr>network_address = 3232235848, prefixlen = 29\<rparr>)"
proof -
  let ?net = "\<lparr>network_address = 3232235848, prefixlen = 29\<rparr>"
  have n: "ip_network 3232235853 29 = Some ?net" by code_simp
  have b: "broadcast_address ?net = 3232235855" by code_simp
  have h: "hosts ?net = [3232235849, 3232235850, 3232235851, 3232235852, 3232235853, 3232235854]"
    by code_simp
  from hosts_exclude_network_and_broadcast [OF n] have
    "network_address ?net \<notin> set (hosts ?net)" "broadcast_address ?net \<notin> set (hosts ?net)"
    by simp_all
  with n b h show ?thesis by simp
qed

text \<open>
  Claim C8 as stated fails on a subnet with a prefix length of 31: for 192.168.1.0/31
  the network address 192.168.1.0 and the broadcast address 192.168.1.1 are both probed.
\<close>

theorem slash31_counterexample:
  "ip_network 3232235776 31 = Some \<lparr>network_address = 3232235776, prefixlen = 31\<rparr> \<and>
   broadcast_address \<lparr>network_address = 3232235776, prefixlen = 31\<rparr> = 3232235777 \<and>
   hosts \<lparr>network_address = 3232235776, prefixlen = 31\<rparr> = [3232235776, 3232235777]"
  by code_simp

end
